theory Spec2Isabelle
  imports Main
begin

section \<open>JavaScript strings\<close>

text \<open>
  A JavaScript string is modelled as a \<^typ>\<open>string\<close>, one \<^typ>\<open>char\<close> per code unit
  (code units above 255 have no counterpart in \<^typ>\<open>char\<close>). \<open>String.prototype.trim\<close>
  strips the WhiteSpace and LineTerminator code units from both ends; the ones a
  \<^typ>\<open>char\<close> can hold are TAB, LF, VT, FF, CR, SP and NBSP.
\<close>

definition isWhiteSpace :: "char \<Rightarrow> bool" where
  "isWhiteSpace c \<longleftrightarrow>
     c \<in> {CHR 0x09, CHR 0x0A, CHR 0x0B, CHR 0x0C, CHR 0x0D, CHR 0x20, CHR 0xA0}"

definition String_trim :: "string \<Rightarrow> string" where
  "String_trim s = rev (dropWhile isWhiteSpace (rev (dropWhile isWhiteSpace s)))"

text \<open>\<open>s.slice(n)\<close>: a negative \<open>n\<close> counts from the end, clamped at the start.\<close>

definition String_slice :: "int \<Rightarrow> string \<Rightarrow> string" where
  "String_slice n s = drop (if n < 0 then nat (int (length s) + n) else nat n) s"

section \<open>Nodes of the document model\<close>

text \<open>
  The nodes come from the external library \<open>slate\<close>: a text leaf holds its content and
  the set of marks it was created with (\<open>Text.createFromString(text, marks)\<close>), a block
  or inline container holds its type and its children. \<open>node.kind\<close> is the name of the
  variant; a text leaf has no \<open>type\<close>.
\<close>

type_synonym mark = string

datatype node =
    Text string "mark set"
  | Block string "node list"
  | Inline string "node list"

fun node_kind :: "node \<Rightarrow> string" where
  "node_kind (Text _ _) = ''text''"
| "node_kind (Block _ _) = ''block''"
| "node_kind (Inline _ _) = ''inline''"

fun node_type :: "node \<Rightarrow> string option" where
  "node_type (Text _ _) = None"
| "node_type (Block t _) = Some t"
| "node_type (Inline t _) = Some t"

text \<open>The argument of \<open>push\<close>: one node, or an immutable list of nodes (\<open>List.isList\<close>).\<close>

datatype pushed = Node node | Nodes "node list"

section \<open>The state record\<close>

text \<open>
  A rule is a JavaScript object; \<open>rule[kind]\<close> looks a property up by name and is falsy
  when the rule does not offer the operation. The rule functions themselves are values of
  an abstract type \<open>'f\<close>, run by \<open>RuleFunction.exec\<close>.
\<close>

type_synonym 'f rule = "string \<rightharpoonup> 'f"

record ('f, 'v) state =
  "text" :: string
  nodes :: "node list"
  marks :: "mark set"
  kind :: string
  rulesSet :: "string \<rightharpoonup> 'f rule list"
  depth :: int
  props :: "string \<rightharpoonup> 'v"

text \<open>
  What a rule function hands back. The engine tests the returned value twice: for
  truthiness, and with \<open>==\<close> against the state the rule was given. On objects \<open>==\<close> is
  identity, so the model records whether the rule returned the very object it received
  (\<open>This\<close>) or some other state object (\<open>Other\<close>, whatever its contents), or a falsy value
  (\<open>Undefined\<close>).
\<close>

datatype 'a returned = Undefined | This | Other 'a

text \<open>
  \<open>RuleFunction.exec\<close> (module \<open>./rule-function\<close>) and the constant \<open>BLOCKS.TEXT\<close>
  (module \<open>../constants/blocks\<close>) are parameters of the model.
\<close>

record ('f, 'v) env =
  RuleFunction_exec :: "'f \<Rightarrow> ('f, 'v) state \<Rightarrow> ('f, 'v) state returned"
  BLOCKS_TEXT :: string

text \<open>The options of \<open>lex\<close>; \<open>trim\<close> is absent (\<open>None\<close>) unless the caller sets it.\<close>

record opts =
  trim :: "bool option"

datatype error = Error string

section \<open>State operations\<close>

definition create :: "(string \<rightharpoonup> 'f rule list) \<Rightarrow> ('f, 'v) state" where
  "create rs = \<lparr>text = [], nodes = [], marks = {}, kind = ''block'', rulesSet = rs,
     depth = 0, props = Map.empty\<rparr>"

definition rules :: "('f, 'v) state \<Rightarrow> 'f rule list" where
  "rules s = (case rulesSet s (kind s) of None \<Rightarrow> [] | Some rs \<Rightarrow> rs)"

definition use :: "string \<Rightarrow> ('f, 'v) state \<Rightarrow> ('f, 'v) state" where
  "use k s = s\<lparr>kind := k\<rparr>"

definition setProp :: "string \<Rightarrow> 'v \<Rightarrow> ('f, 'v) state \<Rightarrow> ('f, 'v) state" where
  "setProp key v s = s\<lparr>props := (props s)(key \<mapsto> v)\<rparr>"

definition getProp :: "string \<Rightarrow> ('f, 'v) state \<Rightarrow> 'v option" where
  "getProp key s = props s key"

definition "write" :: "string \<Rightarrow> ('f, 'v) state \<Rightarrow> ('f, 'v) state" where
  "write str s = s\<lparr>text := text s @ str\<rparr>"

definition replaceText :: "string \<Rightarrow> ('f, 'v) state \<Rightarrow> ('f, 'v) state" where
  "replaceText t s = s\<lparr>text := t\<rparr>"

definition peek :: "('f, 'v) state \<Rightarrow> node option" where
  "peek s = (case nodes s of [] \<Rightarrow> None | n # _ \<Rightarrow> Some n)"

definition shift :: "('f, 'v) state \<Rightarrow> ('f, 'v) state" where
  "shift s = s\<lparr>nodes := (case nodes s of [] \<Rightarrow> [] | _ # ns \<Rightarrow> ns)\<rparr>"

definition unshift :: "node \<Rightarrow> ('f, 'v) state \<Rightarrow> ('f, 'v) state" where
  "unshift n s = s\<lparr>nodes := n # nodes s\<rparr>"

definition push :: "pushed \<Rightarrow> ('f, 'v) state \<Rightarrow> ('f, 'v) state" where
  "push p s = s\<lparr>nodes := (case p of Nodes ns \<Rightarrow> nodes s @ ns | Node n \<Rightarrow> nodes s @ [n])\<rparr>"

definition pushMark :: "mark \<Rightarrow> ('f, 'v) state \<Rightarrow> ('f, 'v) state" where
  "pushMark m s = s\<lparr>marks := insert m (marks s)\<rparr>"

definition pushText :: "('f, 'v) env \<Rightarrow> string \<Rightarrow> ('f, 'v) state \<Rightarrow> ('f, 'v) state" where
  "pushText env t s =
     (let node = Text t (marks s);
          node = (if kind s = ''block'' then Block (BLOCKS_TEXT env) [node] else node)
      in push (Node node) s)"

definition up :: "('f, 'v) state \<Rightarrow> ('f, 'v) state" where
  "up s = s\<lparr>depth := depth s - 1\<rparr>"

definition down :: "('f, 'v) state \<Rightarrow> ('f, 'v) state" where
  "down s = s\<lparr>depth := depth s + 1\<rparr>"

definition skip :: "int \<Rightarrow> ('f, 'v) state \<Rightarrow> ('f, 'v) state" where
  "skip n s = s\<lparr>text := String_slice n (text s)\<rparr>"

text \<open>The operations above as data, to speak about sequences of them.\<close>

datatype 'v state_op =
    Use string | SetProp string 'v | Write string | ReplaceText string
  | Shift | Unshift node | Push pushed | PushMark mark | PushText string
  | Up | Down | Skip int

fun apply_op :: "('f, 'v) env \<Rightarrow> 'v state_op \<Rightarrow> ('f, 'v) state \<Rightarrow> ('f, 'v) state" where
  "apply_op env (Use k) s = use k s"
| "apply_op env (SetProp key v) s = setProp key v s"
| "apply_op env (Write str) s = write str s"
| "apply_op env (ReplaceText t) s = replaceText t s"
| "apply_op env Shift s = shift s"
| "apply_op env (Unshift n) s = unshift n s"
| "apply_op env (Push p) s = push p s"
| "apply_op env (PushMark m) s = pushMark m s"
| "apply_op env (PushText t) s = pushText env t s"
| "apply_op env Up s = up s"
| "apply_op env Down s = down s"
| "apply_op env (Skip n) s = skip n s"

definition apply_ops ::
  "('f, 'v) env \<Rightarrow> 'v state_op list \<Rightarrow> ('f, 'v) state \<Rightarrow> ('f, 'v) state" where
  "apply_ops env ops s = foldl (\<lambda>s op. apply_op env op s) s ops"

section \<open>Applying the rules\<close>

text \<open>
  The \<open>forEach\<close> of \<open>applyRules\<close>: each rule assigns \<open>newState\<close>, and a truthy result
  ends the iteration. The list it walks was filtered on \<open>rule[kind]\<close>, so the first
  equation's \<open>None\<close> branch is never taken from \<open>applyRules\<close>. The accumulator is the
  \<open>newState\<close> variable, \<open>undefined\<close> at the start.
\<close>

fun forEach_rule ::
  "('f, 'v) env \<Rightarrow> string \<Rightarrow> ('f, 'v) state \<Rightarrow> 'f rule list \<Rightarrow> ('f, 'v) state returned
     \<Rightarrow> ('f, 'v) state returned" where
  "forEach_rule env k s [] newState = newState"
| "forEach_rule env k s (rule # rs) newState =
     (case rule k of
        None \<Rightarrow> forEach_rule env k s rs newState
      | Some f \<Rightarrow>
          (case RuleFunction_exec env f s of
             Undefined \<Rightarrow> forEach_rule env k s rs Undefined
           | r \<Rightarrow> r))"

definition applyRules ::
  "('f, 'v) env \<Rightarrow> string \<Rightarrow> ('f, 'v) state \<Rightarrow> ('f, 'v) state returned" where
  "applyRules env k s =
     forEach_rule env k s (filter (\<lambda>rule. rule k \<noteq> None) (rules s)) Undefined"

section \<open>The decode loop\<close>

definition identical_state :: error where
  "identical_state =
     Error ''A rule returns an identical state, returns undefined instead when passing.''"

text \<open>
  The first lines of \<open>lex\<close>: the pending raw text \<open>rest\<close>, trimmed unless \<open>opts.trim\<close> is
  \<open>false\<close>, is pushed as a text node when it is not empty.
\<close>

definition lex_startState ::
  "('f, 'v) env \<Rightarrow> string \<Rightarrow> opts \<Rightarrow> ('f, 'v) state \<Rightarrow> ('f, 'v) state" where
  "lex_startState env rest opts state =
     (let startState = state;
          trimedRest = (if trim opts \<noteq> Some False then String_trim rest else rest)
      in if trimedRest \<noteq> [] then pushText env trimedRest startState else startState)"

text \<open>
  \<open>lex\<close> (here \<open>lex_text\<close>) calls itself until the text is used up. Nothing in it
  bounds the number of calls, so the model is a partial function: \<open>None\<close> is a run whose
  recursion never ends (an engine with a bounded call stack gives up on it with a stack
  overflow), \<open>Some (Inl e)\<close> a run that throws \<open>e\<close>, \<open>Some (Inr s)\<close> a run that returns
  \<open>s\<close>. After a match the recursive call receives \<open>rest\<close> as it is.
\<close>

partial_function (option) lex_text ::
  "('f, 'v) env \<Rightarrow> string \<Rightarrow> opts \<Rightarrow> ('f, 'v) state \<Rightarrow> (error + ('f, 'v) state) option" where
  "lex_text env rest opts state =
     (let startState = lex_startState env rest opts state in
      if text state = [] then Some (Inr startState)
      else
        (case applyRules env ''deserialize'' startState of
           This \<Rightarrow> Some (Inl identical_state)
         | Undefined \<Rightarrow> lex_text env (rest @ [hd (text state)]) opts (skip 1 state)
         | Other newState \<Rightarrow> lex_text env rest opts newState))"

text \<open>
  The same function with a budget of calls: \<open>lex_fuel k\<close> is \<open>lex\<close> cut off (\<open>None\<close>)
  when it would need more than \<open>k\<close> invocations.
\<close>

fun lex_fuel ::
  "nat \<Rightarrow> ('f, 'v) env \<Rightarrow> string \<Rightarrow> opts \<Rightarrow> ('f, 'v) state
     \<Rightarrow> (error + ('f, 'v) state) option" where
  "lex_fuel 0 env rest opts state = None"
| "lex_fuel (Suc k) env rest opts state =
     (let startState = lex_startState env rest opts state in
      if text state = [] then Some (Inr startState)
      else
        (case applyRules env ''deserialize'' startState of
           This \<Rightarrow> Some (Inl identical_state)
         | Undefined \<Rightarrow> lex_fuel k env (rest @ [hd (text state)]) opts (skip 1 state)
         | Other newState \<Rightarrow> lex_fuel k env rest opts newState))"

definition deserialize ::
  "('f, 'v) env \<Rightarrow> string \<Rightarrow> ('f, 'v) state \<Rightarrow> (error + node list) option" where
  "deserialize env t s =
     (case lex_text env [] \<lparr>trim = None\<rparr> ((down s)\<lparr>text := t, nodes := []\<rparr>) of
        None \<Rightarrow> None
      | Some (Inl e) \<Rightarrow> Some (Inl e)
      | Some (Inr state) \<Rightarrow> Some (Inr (nodes state)))"

section \<open>The encode loop\<close>

definition no_rule_match :: "node \<Rightarrow> error" where
  "no_rule_match n =
     Error (''No rule match node '' @ node_kind n @ ''#''
       @ (case node_type n of None \<Rightarrow> [] | Some t \<Rightarrow> t))"

text \<open>\<open>State._serialize\<close>, a partial function for the same reason as \<open>lex\<close>.\<close>

partial_function (option) serialize_loop ::
  "('f, 'v) env \<Rightarrow> ('f, 'v) state \<Rightarrow> (error + ('f, 'v) state) option" where
  "serialize_loop env this =
     (case nodes this of
        [] \<Rightarrow> Some (Inr this)
      | n # _ \<Rightarrow>
          (case applyRules env ''serialize'' this of
             Undefined \<Rightarrow> Some (Inl (no_rule_match n))
           | This \<Rightarrow> Some (Inl identical_state)
           | Other state \<Rightarrow> serialize_loop env state))"

definition serialize ::
  "('f, 'v) env \<Rightarrow> node list \<Rightarrow> ('f, 'v) state \<Rightarrow> (error + string) option" where
  "serialize env ns s =
     (case serialize_loop env ((down s)\<lparr>text := [], nodes := ns\<rparr>) of
        None \<Rightarrow> None
      | Some (Inl e) \<Rightarrow> Some (Inl e)
      | Some (Inr state) \<Rightarrow> Some (Inr (text state)))"

text \<open>
  The states a returning run of \<open>_serialize\<close> goes through: \<open>serialize_run env s ss r\<close>
  holds when, starting from \<open>s\<close>, the rule applications return the states \<open>ss\<close> one after
  the other, each on a non-empty node stack, and the last state \<open>r\<close> has no node left.
\<close>

fun serialize_run ::
  "('f, 'v) env \<Rightarrow> ('f, 'v) state \<Rightarrow> ('f, 'v) state list \<Rightarrow> ('f, 'v) state \<Rightarrow> bool" where
  "serialize_run env s [] r \<longleftrightarrow> nodes s = [] \<and> r = s"
| "serialize_run env s (s' # ss) r \<longleftrightarrow>
     nodes s \<noteq> [] \<and> applyRules env ''serialize'' s = Other s' \<and> serialize_run env s' ss r"

section \<open>Example rule functions\<close>

text \<open>
  Concrete rule functions for the examples below, each one a one-line JavaScript function:
  \<^item> \<open>Pass\<close>: \<open>state => undefined\<close>;
  \<^item> \<open>Same\<close>: \<open>state => state\<close>;
  \<^item> \<open>Rebuild\<close>: \<open>state => state.down().up()\<close>, a new record with the same contents;
  \<^item> \<open>WriteStr str\<close>: \<open>state => state.write(str)\<close> (a merge that changes nothing
    returns the record itself);
  \<^item> \<open>WriteThenShift str\<close>: \<open>state => state.text ? state.shift() : state.write(str)\<close>;
  \<^item> \<open>SkipPush n node\<close>: \<open>state => state.skip(n).push(node)\<close>;
  \<^item> \<open>PushOnly node\<close>: \<open>state => state.push(node)\<close>.
\<close>

datatype example_fn =
    Pass | Same | Rebuild | WriteStr string | WriteThenShift string
  | SkipPush int node | PushOnly node

fun example_exec ::
  "example_fn \<Rightarrow> (example_fn, 'v) state \<Rightarrow> (example_fn, 'v) state returned" where
  "example_exec Pass s = Undefined"
| "example_exec Same s = This"
| "example_exec Rebuild s = Other (up (down s))"
| "example_exec (WriteStr str) s = (if str = [] then This else Other (write str s))"
| "example_exec (WriteThenShift str) s =
     (if text s = [] then (if str = [] then This else Other (write str s))
      else (if nodes s = [] then This else Other (shift s)))"
| "example_exec (SkipPush n node) s = Other (push (Node node) (skip n s))"
| "example_exec (PushOnly node) s = Other (push (Node node) s)"

definition example_env :: "(example_fn, 'v) env" where
  "example_env = \<lparr>RuleFunction_exec = example_exec, BLOCKS_TEXT = ''unstyled''\<rparr>"

section \<open>Helper lemmas\<close>

lemma rules_pushText: "rules (pushText env t s) = rules s"
  by (simp add: rules_def pushText_def push_def Let_def)

lemma rules_lex_startState: "rules (lex_startState env rest opts s) = rules s"
  by (simp add: lex_startState_def Let_def rules_pushText)

lemma text_lex_startState: "text (lex_startState env rest opts s) = text s"
  by (simp add: lex_startState_def Let_def pushText_def push_def)

lemma skip_1: "text s = c # cs \<Longrightarrow> skip 1 s = s\<lparr>text := cs\<rparr>"
  by (simp add: skip_def String_slice_def)

lemma forEach_rule_all_Undefined:
  "\<forall>q\<in>set rs. \<forall>g. q k = Some g \<longrightarrow> RuleFunction_exec env g s = Undefined \<Longrightarrow>
   forEach_rule env k s rs acc = (if \<exists>q\<in>set rs. q k \<noteq> None then Undefined else acc)"
  by (induction rs arbitrary: acc) (auto split: option.splits returned.splits)

lemma forEach_rule_first:
  assumes "rule k = Some f" and "RuleFunction_exec env f s = r" and "r \<noteq> Undefined"
    and "\<forall>q\<in>set pre. \<forall>g. q k = Some g \<longrightarrow> RuleFunction_exec env g s = Undefined"
  shows "forEach_rule env k s (pre @ rule # post) acc = r"
  using assms(4)
proof (induction pre arbitrary: acc)
  case Nil
  then show ?case using assms(1-3) by (cases r) simp_all
next
  case (Cons q pre)
  then show ?case by (cases "q k") simp_all
qed

lemma applyRules_first:
  assumes "rules s = pre @ rule # post" and "rule k = Some f"
    and "RuleFunction_exec env f s = r" and "r \<noteq> Undefined"
    and "\<forall>q\<in>set pre. \<forall>g. q k = Some g \<longrightarrow> RuleFunction_exec env g s = Undefined"
  shows "applyRules env k s = r"
proof -
  let ?P = "\<lambda>rule. rule k \<noteq> None"
  have "filter ?P (rules s) = filter ?P pre @ rule # filter ?P post"
    using assms(1,2) by simp
  moreover have "\<forall>q\<in>set (filter ?P pre). \<forall>g. q k = Some g \<longrightarrow> RuleFunction_exec env g s = Undefined"
    using assms(5) by auto
  ultimately show ?thesis
    unfolding applyRules_def
    using forEach_rule_first [where rule = rule and k = k and f = f and env = env and s = s
        and r = r and pre = "filter ?P pre" and post = "filter ?P post" and acc = Undefined]
      assms(2-4)
    by simp
qed

lemma applyRules_Undefined:
  assumes "\<forall>q\<in>set (rules s). \<forall>g. q k = Some g \<longrightarrow> RuleFunction_exec env g s = Undefined"
  shows "applyRules env k s = Undefined"
  unfolding applyRules_def
  by (subst forEach_rule_all_Undefined) (use assms in auto)

lemma forEach_rule_result:
  "forEach_rule env k s rs Undefined = r \<Longrightarrow> r \<noteq> Undefined \<Longrightarrow>
   \<exists>pre rule post f. rs = pre @ rule # post \<and> rule k = Some f \<and> RuleFunction_exec env f s = r
     \<and> (\<forall>q\<in>set pre. \<forall>g. q k = Some g \<longrightarrow> RuleFunction_exec env g s = Undefined)"
proof (induction rs)
  case Nil
  then show ?case by simp
next
  case (Cons q rs)
  show ?case
  proof (cases "q k")
    case None
    with Cons.prems have "forEach_rule env k s rs Undefined = r" by simp
    from Cons.IH [OF this Cons.prems(2)] obtain pre rule post f where
      *: "rs = pre @ rule # post" "rule k = Some f" "RuleFunction_exec env f s = r"
         "\<forall>q\<in>set pre. \<forall>g. q k = Some g \<longrightarrow> RuleFunction_exec env g s = Undefined"
      by blast
    show ?thesis
      by (rule exI [of _ "q # pre"], rule exI [of _ rule], rule exI [of _ post], rule exI [of _ f])
         (use * None in simp)
  next
    case (Some g)
    show ?thesis
    proof (cases "RuleFunction_exec env g s = Undefined")
      case True
      with Cons.prems Some have "forEach_rule env k s rs Undefined = r" by simp
      from Cons.IH [OF this Cons.prems(2)] obtain pre rule post f where
        *: "rs = pre @ rule # post" "rule k = Some f" "RuleFunction_exec env f s = r"
           "\<forall>q\<in>set pre. \<forall>g. q k = Some g \<longrightarrow> RuleFunction_exec env g s = Undefined"
        by blast
      show ?thesis
        by (rule exI [of _ "q # pre"], rule exI [of _ rule], rule exI [of _ post], rule exI [of _ f])
           (use * Some True in simp)
    next
      case False
      with Cons.prems Some have "RuleFunction_exec env g s = r"
        by (cases "RuleFunction_exec env g s") simp_all
      then show ?thesis
        by (intro exI [of _ "[]"] exI [of _ q] exI [of _ rs] exI [of _ g]) (use Some in simp)
    qed
  qed
qed

section \<open>Rule order (C3)\<close>

text \<open>
  C3. \<open>applyRules\<close> tries the rules of the active list in their declared order, skipping
  those that do not offer the requested operation, and returns the result of the first
  rule whose application is not \<open>undefined\<close>: if every rule before \<open>rule\<close> either lacks
  the operation or returns \<open>undefined\<close>, and \<open>rule\<close> returns \<open>r\<close>, the result is \<open>r\<close>, whatever
  the rules after it would return.
\<close>

theorem applyRules_first_match:
  assumes "rules s = pre @ rule # post"
    and "rule k = Some f"
    and "RuleFunction_exec env f s = r" and "r \<noteq> Undefined"
    and "\<forall>q\<in>set pre. case q k of None \<Rightarrow> True | Some g \<Rightarrow> RuleFunction_exec env g s = Undefined"
  shows "applyRules env k s = r"
proof -
  have "RuleFunction_exec env g s = Undefined" if "q \<in> set pre" and "q k = Some g" for q g
    using assms(5) that by (auto split: option.splits)
  then have "\<forall>q\<in>set pre. \<forall>g. q k = Some g \<longrightarrow> RuleFunction_exec env g s = Undefined"
    by blast
  with assms(1-4) show ?thesis by (rule applyRules_first)
qed

theorem applyRules_first_match_witness:
  "applyRules example_env ''deserialize''
     (create [''block'' \<mapsto> [[''deserialize'' \<mapsto> Pass], [''serialize'' \<mapsto> WriteStr ''s''],
        [''deserialize'' \<mapsto> WriteStr ''a''], [''deserialize'' \<mapsto> WriteStr ''b'']]]
        :: (example_fn, unit) state)
   = Other (write ''a''
       (create [''block'' \<mapsto> [[''deserialize'' \<mapsto> Pass], [''serialize'' \<mapsto> WriteStr ''s''],
        [''deserialize'' \<mapsto> WriteStr ''a''], [''deserialize'' \<mapsto> WriteStr ''b'']]]))"
  by (rule applyRules_first_match
      [where pre = "[[''deserialize'' \<mapsto> Pass], [''serialize'' \<mapsto> WriteStr ''s'']]"
         and rule = "[''deserialize'' \<mapsto> WriteStr ''a'']"
         and post = "[[''deserialize'' \<mapsto> WriteStr ''b'']]"
         and f = "WriteStr ''a''"])
     (simp_all add: rules_def create_def example_env_def)

section \<open>Pushing text (C10)\<close>

text \<open>
  C10. When the state's kind is \<open>'block'\<close>, \<open>pushText(text)\<close> appends a block of type
  \<open>BLOCKS.TEXT\<close> whose only child is the new text leaf; for any other kind it appends the
  bare text leaf. The leaf carries the state's current marks, and no other field changes.
\<close>

theorem pushText_block_or_leaf:
  "(kind s = ''block'' \<longrightarrow>
      pushText env t s = s\<lparr>nodes := nodes s @ [Block (BLOCKS_TEXT env) [Text t (marks s)]]\<rparr>) \<and>
   (kind s \<noteq> ''block'' \<longrightarrow>
      pushText env t s = s\<lparr>nodes := nodes s @ [Text t (marks s)]\<rparr>)"
  by (simp add: pushText_def push_def Let_def)

theorem pushText_block_or_leaf_witness:
  "nodes (pushText example_env ''hi'' (pushMark ''BOLD'' (create Map.empty :: (example_fn, unit) state)))
     = [Block ''unstyled'' [Text ''hi'' {''BOLD''}]] \<and>
   nodes (pushText example_env ''hi''
       (use ''inline'' (pushMark ''BOLD'' (create Map.empty :: (example_fn, unit) state))))
     = [Text ''hi'' {''BOLD''}]"
  using pushText_block_or_leaf
      [of "pushMark ''BOLD'' (create Map.empty :: (example_fn, unit) state)" example_env "''hi''"]
    pushText_block_or_leaf
      [of "use ''inline'' (pushMark ''BOLD'' (create Map.empty :: (example_fn, unit) state))"
        example_env "''hi''"]
  by (simp add: create_def pushMark_def use_def example_env_def)

section \<open>Properties of \<open>trim\<close>\<close>

lemma dropWhile_split_ws:
  "\<exists>l. xs = l @ dropWhile P xs \<and> (\<forall>c\<in>set l. P c)"
  by (rule exI [of _ "takeWhile P xs"]) (auto dest: set_takeWhileD)

lemma String_trim_split:
  "\<exists>l r. str = l @ String_trim str @ r \<and> (\<forall>c\<in>set l. isWhiteSpace c) \<and> (\<forall>c\<in>set r. isWhiteSpace c)"
proof -
  let ?d = "dropWhile isWhiteSpace str"
  obtain l where l: "str = l @ ?d" "\<forall>c\<in>set l. isWhiteSpace c"
    using dropWhile_split_ws [of str isWhiteSpace] by blast
  obtain r where r: "rev ?d = r @ dropWhile isWhiteSpace (rev ?d)" "\<forall>c\<in>set r. isWhiteSpace c"
    using dropWhile_split_ws [of "rev ?d" isWhiteSpace] by blast
  from r(1) have "rev (rev ?d) = rev (r @ dropWhile isWhiteSpace (rev ?d))" by simp
  then have "?d = String_trim str @ rev r" by (simp add: String_trim_def)
  with l have "str = l @ String_trim str @ rev r" by simp
  with l(2) r(2) show ?thesis by (intro exI [of _ l] exI [of _ "rev r"]) simp
qed

lemma String_trim_ends:
  assumes "String_trim str \<noteq> []"
  shows "\<not> isWhiteSpace (hd (String_trim str)) \<and> \<not> isWhiteSpace (last (String_trim str))"
proof -
  let ?d = "dropWhile isWhiteSpace str"
  let ?e = "dropWhile isWhiteSpace (rev ?d)"
  from assms have e: "?e \<noteq> []" by (simp add: String_trim_def)
  then have "\<not> isWhiteSpace (hd ?e)" by (rule hd_dropWhile)
  then have last: "\<not> isWhiteSpace (last (String_trim str))"
    using e by (simp add: String_trim_def last_rev)
  have d: "?d \<noteq> []"
  proof
    assume "?d = []"
    then have "?e = []" by (simp only: rev.simps dropWhile.simps)
    with e show False by simp
  qed
  then have hd: "\<not> isWhiteSpace (hd ?d)" by (rule hd_dropWhile)
  obtain r where "rev ?d = r @ ?e" using dropWhile_split_ws [of "rev ?d" isWhiteSpace] by blast
  then have "rev (rev ?d) = rev (r @ ?e)" by simp
  then have "?d = String_trim str @ rev r" by (simp add: String_trim_def)
  with assms have "hd ?d = hd (String_trim str)" by (metis hd_append2)
  with hd last show ?thesis by simp
qed

lemma String_trim_all_ws: "\<forall>c\<in>set str. isWhiteSpace c \<Longrightarrow> String_trim str = []"
proof -
  assume "\<forall>c\<in>set str. isWhiteSpace c"
  then have "dropWhile isWhiteSpace str = []" by (simp only: dropWhile_eq_Nil_conv)
  then show ?thesis by (simp only: String_trim_def rev.simps dropWhile.simps)
qed

section \<open>Decoding without decode rules (C1)\<close>

lemma lex_text_no_decode_rule:
  "\<forall>rule\<in>set (rules s). rule ''deserialize'' = None \<Longrightarrow>
   lex_text env rest opts s = Some (Inr (lex_startState env (rest @ text s) opts (s\<lparr>text := []\<rparr>)))"
proof (induction "text s" arbitrary: rest s)
  case Nil
  then have t: "text s = []" by simp
  then have e: "s\<lparr>text := []\<rparr> = s" by simp
  show ?case unfolding e by (subst lex_text.simps) (simp add: t)
next
  case (Cons c cs)
  from Cons.hyps(2) have t: "text s = c # cs" by simp
  let ?s' = "s\<lparr>text := cs\<rparr>"
  have r: "rules ?s' = rules s" by (simp add: rules_def)
  have "applyRules env ''deserialize'' (lex_startState env rest opts s) = Undefined"
    by (rule applyRules_Undefined) (use Cons.prems in \<open>auto simp add: rules_lex_startState\<close>)
  then have "lex_text env rest opts s = lex_text env (rest @ [c]) opts ?s'"
    using t by (subst lex_text.simps) (simp add: Let_def skip_1)
  also have "\<dots> = Some (Inr (lex_startState env ((rest @ [c]) @ text ?s') opts (?s'\<lparr>text := []\<rparr>)))"
    by (rule Cons.hyps(1)) (use Cons.prems r in simp_all)
  finally show ?case using t by simp
qed

lemma deserialize_no_rule:
  assumes "\<forall>rule\<in>set (rules s). rule ''deserialize'' = None"
  shows "deserialize env t s =
     Some (Inr (if String_trim t = [] then []
                else [if kind s = ''block'' then Block (BLOCKS_TEXT env) [Text (String_trim t) (marks s)]
                      else Text (String_trim t) (marks s)]))"
proof -
  let ?s = "(down s)\<lparr>text := t, nodes := []\<rparr>"
  have "rules ?s = rules s" by (simp add: rules_def down_def)
  with assms have "\<forall>rule\<in>set (rules ?s). rule ''deserialize'' = None" by simp
  from lex_text_no_decode_rule [OF this]
  have "lex_text env [] \<lparr>trim = None\<rparr> ?s
      = Some (Inr (lex_startState env t \<lparr>trim = None\<rparr> (?s\<lparr>text := []\<rparr>)))"
    by simp
  then show ?thesis
    by (simp add: deserialize_def lex_startState_def Let_def pushText_def push_def down_def)
qed

lemma String_trim_id:
  assumes "t \<noteq> []" and "\<not> isWhiteSpace (hd t)" and "\<not> isWhiteSpace (last t)"
  shows "String_trim t = t"
proof -
  from assms(1,2) have "dropWhile isWhiteSpace t = t" by (cases t) simp_all
  moreover from assms(1,3) have "dropWhile isWhiteSpace (rev t) = rev t"
    by (cases "rev t") (simp_all add: hd_rev [symmetric])
  ultimately show ?thesis by (simp add: String_trim_def)
qed

text \<open>
  C1 (amended). When no rule of the active list offers \<open>deserialize\<close> (in particular when
  the list is empty), \<open>deserialize(text)\<close> returns no node if \<open>text.trim()\<close> is empty, and
  otherwise exactly one node made by \<open>pushText(text.trim())\<close>: the text leaf with the
  trimmed content and the state's marks, wrapped in a \<open>BLOCKS.TEXT\<close> block when the kind
  is \<open>'block'\<close>. For a non-empty text that neither starts nor ends with whitespace, under a
  kind other than \<open>'block'\<close>, the result is the one text leaf whose content is \<open>text\<close>.
\<close>

theorem deserialize_no_decode_rule:
  assumes "\<forall>rule\<in>set (rules s). rule ''deserialize'' = None"
  shows "deserialize env t s =
     Some (Inr (if String_trim t = [] then []
                else [if kind s = ''block'' then Block (BLOCKS_TEXT env) [Text (String_trim t) (marks s)]
                      else Text (String_trim t) (marks s)])) \<and>
    (t \<noteq> [] \<and> \<not> isWhiteSpace (hd t) \<and> \<not> isWhiteSpace (last t) \<and> kind s \<noteq> ''block'' \<longrightarrow>
       deserialize env t s = Some (Inr [Text t (marks s)]))"
  using deserialize_no_rule [OF assms] String_trim_id [of t] by auto

theorem deserialize_no_decode_rule_witness:
  "\<not> isWhiteSpace (hd ''a b'') \<and> \<not> isWhiteSpace (last ''a b'') \<and>
   deserialize example_env ''a b''
     (use ''inline'' (pushMark ''BOLD''
        (create [''inline'' \<mapsto> [[''serialize'' \<mapsto> Pass]]] :: (example_fn, unit) state)))
     = Some (Inr [Text ''a b'' {''BOLD''}])"
  using deserialize_no_decode_rule
    [of "use ''inline'' (pushMark ''BOLD''
        (create [''inline'' \<mapsto> [[''serialize'' \<mapsto> Pass]]] :: (example_fn, unit) state))"
       example_env "''a b''"]
  by (simp add: rules_def use_def pushMark_def create_def isWhiteSpace_def String_trim_def)

text \<open>
  The claim as stated fails: with no rules at all, the text \<open>" a"\<close> yields a leaf whose
  content is \<open>"a"\<close>, and the empty text yields no node.
\<close>

theorem deserialize_empty_rules_counterexample:
  "deserialize example_env '' a'' (use ''inline'' (create Map.empty :: (example_fn, unit) state))
     = Some (Inr [Text ''a'' {}]) \<and>
   deserialize example_env [] (use ''inline'' (create Map.empty :: (example_fn, unit) state))
     = Some (Inr [])"
proof -
  have "\<forall>rule\<in>set (rules (use ''inline'' (create Map.empty :: (example_fn, unit) state))).
      rule ''deserialize'' = None"
    by (simp add: rules_def use_def create_def)
  from deserialize_no_rule [OF this] show ?thesis
    by (simp add: String_trim_def isWhiteSpace_def use_def create_def)
qed

section \<open>Trimming the pending raw text (C9)\<close>

lemma lex_startState_nodes:
  "lex_startState env rest opts s =
     s\<lparr>nodes := nodes s @
        (let t = (if trim opts \<noteq> Some False then String_trim rest else rest) in
         if t = [] then []
         else [if kind s = ''block'' then Block (BLOCKS_TEXT env) [Text t (marks s)]
               else Text t (marks s)])\<rparr>"
  by (simp add: lex_startState_def pushText_def push_def Let_def)

text \<open>
  C9. Unless \<open>opts.trim\<close> is \<open>false\<close>, the pending raw text is trimmed before it is flushed:
  each invocation of \<open>lex\<close> appends to the node stack one text leaf whose content is
  \<open>rest.trim()\<close>, with the state's marks (inside a \<open>BLOCKS.TEXT\<close> block under kind
  \<open>'block'\<close>), and appends nothing when the trimmed text is empty, in particular when
  \<open>rest\<close> is all whitespace. \<open>rest.trim()\<close> is \<open>rest\<close> without a whitespace prefix and a
  whitespace suffix, and neither starts nor ends with whitespace. At the end of the text
  \<open>lex\<close> returns the flushed state; on a non-empty text it applies the rules to the flushed
  state; and when no rule offers \<open>deserialize\<close>, the whole unmatched text joins the
  pending raw text and is flushed, trimmed, as one leaf. With \<open>opts.trim\<close> set to \<open>false\<close>
  the leaf holds \<open>rest\<close> as it is.
\<close>

theorem lex_trims_pending_rest:
  "(trim opts \<noteq> Some False \<longrightarrow>
      lex_startState env rest opts s =
        s\<lparr>nodes := nodes s @
          (if String_trim rest = [] then []
           else [if kind s = ''block'' then Block (BLOCKS_TEXT env) [Text (String_trim rest) (marks s)]
                 else Text (String_trim rest) (marks s)])\<rparr>) \<and>
   (trim opts \<noteq> Some False \<and> (\<forall>c\<in>set rest. isWhiteSpace c) \<longrightarrow>
      lex_startState env rest opts s = s) \<and>
   (\<exists>l r. rest = l @ String_trim rest @ r \<and>
      (\<forall>c\<in>set l. isWhiteSpace c) \<and> (\<forall>c\<in>set r. isWhiteSpace c)) \<and>
   (String_trim rest \<noteq> [] \<longrightarrow>
      \<not> isWhiteSpace (hd (String_trim rest)) \<and> \<not> isWhiteSpace (last (String_trim rest))) \<and>
   (text s = [] \<longrightarrow>
      lex_text env rest opts s = Some (Inr (lex_startState env rest opts s))) \<and>
   (text s \<noteq> [] \<longrightarrow>
      lex_text env rest opts s =
        (case applyRules env ''deserialize'' (lex_startState env rest opts s) of
           Undefined \<Rightarrow> lex_text env (rest @ [hd (text s)]) opts (skip 1 s)
         | This \<Rightarrow> Some (Inl identical_state)
         | Other newState \<Rightarrow> lex_text env rest opts newState)) \<and>
   (trim opts \<noteq> Some False \<and> (\<forall>rule\<in>set (rules s). rule ''deserialize'' = None) \<longrightarrow>
      lex_text env rest opts s =
        Some (Inr (s\<lparr>text := [], nodes := nodes s @
          (if String_trim (rest @ text s) = [] then []
           else [if kind s = ''block''
                 then Block (BLOCKS_TEXT env) [Text (String_trim (rest @ text s)) (marks s)]
                 else Text (String_trim (rest @ text s)) (marks s)])\<rparr>))) \<and>
   (trim opts = Some False \<longrightarrow>
      lex_startState env rest opts s =
        s\<lparr>nodes := nodes s @
          (if rest = [] then []
           else [if kind s = ''block'' then Block (BLOCKS_TEXT env) [Text rest (marks s)]
                 else Text rest (marks s)])\<rparr>)"
proof (intro conjI impI)
  assume "trim opts \<noteq> Some False"
  then show "lex_startState env rest opts s =
        s\<lparr>nodes := nodes s @
          (if String_trim rest = [] then []
           else [if kind s = ''block'' then Block (BLOCKS_TEXT env) [Text (String_trim rest) (marks s)]
                 else Text (String_trim rest) (marks s)])\<rparr>"
    by (simp add: lex_startState_nodes)
next
  assume "trim opts \<noteq> Some False \<and> (\<forall>c\<in>set rest. isWhiteSpace c)"
  then have "trim opts \<noteq> Some False" and "String_trim rest = []"
    by (simp_all add: String_trim_all_ws)
  then show "lex_startState env rest opts s = s" by (simp add: lex_startState_nodes)
next
  show "\<exists>l r. rest = l @ String_trim rest @ r \<and>
      (\<forall>c\<in>set l. isWhiteSpace c) \<and> (\<forall>c\<in>set r. isWhiteSpace c)"
    by (rule String_trim_split)
next
  assume "String_trim rest \<noteq> []"
  then show "\<not> isWhiteSpace (hd (String_trim rest))" and "\<not> isWhiteSpace (last (String_trim rest))"
    using String_trim_ends by blast+
next
  assume "text s = []"
  then show "lex_text env rest opts s = Some (Inr (lex_startState env rest opts s))"
    by (subst lex_text.simps) (simp add: Let_def)
next
  assume "text s \<noteq> []"
  then show "lex_text env rest opts s =
        (case applyRules env ''deserialize'' (lex_startState env rest opts s) of
           Undefined \<Rightarrow> lex_text env (rest @ [hd (text s)]) opts (skip 1 s)
         | This \<Rightarrow> Some (Inl identical_state)
         | Other newState \<Rightarrow> lex_text env rest opts newState)"
    by (subst lex_text.simps) (simp add: Let_def)
next
  assume a: "trim opts \<noteq> Some False \<and> (\<forall>rule\<in>set (rules s). rule ''deserialize'' = None)"
  then have "lex_text env rest opts s =
      Some (Inr (lex_startState env (rest @ text s) opts (s\<lparr>text := []\<rparr>)))"
    by (simp add: lex_text_no_decode_rule)
  with a show "lex_text env rest opts s =
        Some (Inr (s\<lparr>text := [], nodes := nodes s @
          (if String_trim (rest @ text s) = [] then []
           else [if kind s = ''block''
                 then Block (BLOCKS_TEXT env) [Text (String_trim (rest @ text s)) (marks s)]
                 else Text (String_trim (rest @ text s)) (marks s)])\<rparr>))"
    by (simp add: lex_startState_nodes)
next
  assume "trim opts = Some False"
  then show "lex_startState env rest opts s =
        s\<lparr>nodes := nodes s @
          (if rest = [] then []
           else [if kind s = ''block'' then Block (BLOCKS_TEXT env) [Text rest (marks s)]
                 else Text rest (marks s)])\<rparr>"
    by (simp add: lex_startState_nodes)
qed

theorem lex_trims_pending_rest_witness:
  "lex_startState example_env '' a '' \<lparr>trim = None\<rparr> (create Map.empty :: (example_fn, unit) state)
     = (create Map.empty)\<lparr>nodes := [Block ''unstyled'' [Text ''a'' {}]]\<rparr> \<and>
   lex_text example_env '' a '' \<lparr>trim = None\<rparr> (create Map.empty :: (example_fn, unit) state)
     = Some (Inr ((create Map.empty)\<lparr>nodes := [Block ''unstyled'' [Text ''a'' {}]]\<rparr>)) \<and>
   lex_text example_env ''  '' \<lparr>trim = None\<rparr> (create Map.empty :: (example_fn, unit) state)
     = Some (Inr (create Map.empty)) \<and>
   lex_text example_env [] \<lparr>trim = None\<rparr>
       ((use ''inline'' (pushMark ''BOLD'' (create Map.empty :: (example_fn, unit) state)))
          \<lparr>text := '' a b ''\<rparr>)
     = lex_text example_env '' '' \<lparr>trim = None\<rparr>
         ((use ''inline'' (pushMark ''BOLD'' (create Map.empty)))\<lparr>text := ''a b ''\<rparr>) \<and>
   lex_text example_env [] \<lparr>trim = None\<rparr>
       ((use ''inline'' (pushMark ''BOLD'' (create Map.empty :: (example_fn, unit) state)))
          \<lparr>text := '' a b ''\<rparr>)
     = Some (Inr ((use ''inline'' (pushMark ''BOLD'' (create Map.empty)))
          \<lparr>nodes := [Text ''a b'' {''BOLD''}]\<rparr>)) \<and>
   lex_startState example_env '' a '' \<lparr>trim = Some False\<rparr>
       (use ''inline'' (create Map.empty :: (example_fn, unit) state))
     = (use ''inline'' (create Map.empty))\<lparr>nodes := [Text '' a '' {}]\<rparr>"
proof -
  let ?c = "create Map.empty :: (example_fn, unit) state"
  let ?i = "(use ''inline'' (pushMark ''BOLD'' ?c))\<lparr>text := '' a b ''\<rparr>"
  have trim_a: "String_trim '' a '' = ''a''" and trim_ws: "String_trim ''  '' = []"
    and trim_ab: "String_trim '' a b '' = ''a b''"
    by (simp_all add: String_trim_def isWhiteSpace_def)
  note T = lex_trims_pending_rest
  have w1: "lex_startState example_env '' a '' \<lparr>trim = None\<rparr> ?c
      = ?c\<lparr>nodes := [Block ''unstyled'' [Text ''a'' {}]]\<rparr>"
    using T [where opts = "\<lparr>trim = None\<rparr>" and env = example_env and rest = "'' a ''" and s = ?c,
        THEN conjunct1]
    by (simp add: trim_a create_def example_env_def)
  have w2: "lex_text example_env '' a '' \<lparr>trim = None\<rparr> ?c
      = Some (Inr (lex_startState example_env '' a '' \<lparr>trim = None\<rparr> ?c))"
    using T [where opts = "\<lparr>trim = None\<rparr>" and env = example_env and rest = "'' a ''" and s = ?c,
        THEN conjunct2, THEN conjunct2, THEN conjunct2, THEN conjunct2, THEN conjunct1]
    by (simp add: create_def)
  have w3: "lex_startState example_env ''  '' \<lparr>trim = None\<rparr> ?c = ?c"
    using T [where opts = "\<lparr>trim = None\<rparr>" and env = example_env and rest = "''  ''" and s = ?c,
        THEN conjunct2, THEN conjunct1]
    by (simp add: isWhiteSpace_def)
  have w4: "lex_text example_env ''  '' \<lparr>trim = None\<rparr> ?c
      = Some (Inr (lex_startState example_env ''  '' \<lparr>trim = None\<rparr> ?c))"
    using T [where opts = "\<lparr>trim = None\<rparr>" and env = example_env and rest = "''  ''" and s = ?c,
        THEN conjunct2, THEN conjunct2, THEN conjunct2, THEN conjunct2, THEN conjunct1]
    by (simp add: create_def)
  have w5: "lex_text example_env [] \<lparr>trim = None\<rparr> ?i
      = lex_text example_env '' '' \<lparr>trim = None\<rparr>
         ((use ''inline'' (pushMark ''BOLD'' ?c))\<lparr>text := ''a b ''\<rparr>)"
    using T [where opts = "\<lparr>trim = None\<rparr>" and env = example_env and rest = "[]" and s = ?i,
        THEN conjunct2, THEN conjunct2, THEN conjunct2, THEN conjunct2, THEN conjunct2,
        THEN conjunct1]
    by (simp add: applyRules_def rules_def lex_startState_nodes use_def pushMark_def create_def
        skip_def String_slice_def)
  have w6: "lex_text example_env [] \<lparr>trim = None\<rparr> ?i
      = Some (Inr ((use ''inline'' (pushMark ''BOLD'' ?c))\<lparr>nodes := [Text ''a b'' {''BOLD''}]\<rparr>))"
    using T [where opts = "\<lparr>trim = None\<rparr>" and env = example_env and rest = "[]" and s = ?i,
        THEN conjunct2, THEN conjunct2, THEN conjunct2, THEN conjunct2, THEN conjunct2,
        THEN conjunct2, THEN conjunct1]
    by (simp add: trim_ab rules_def use_def pushMark_def create_def)
  have w7: "lex_startState example_env '' a '' \<lparr>trim = Some False\<rparr> (use ''inline'' ?c)
      = (use ''inline'' ?c)\<lparr>nodes := [Text '' a '' {}]\<rparr>"
    using T [where opts = "\<lparr>trim = Some False\<rparr>" and env = example_env and rest = "'' a ''"
          and s = "use ''inline'' ?c",
        THEN conjunct2, THEN conjunct2, THEN conjunct2, THEN conjunct2, THEN conjunct2,
        THEN conjunct2, THEN conjunct2]
    by (simp add: use_def create_def)
  from w1 w2 w3 w4 w5 w6 w7 show ?thesis by (simp only: simp_thms)
qed

section \<open>Runs of the decode loop\<close>

lemma applyRules_result:
  assumes "applyRules env k s = r" and "r \<noteq> Undefined"
  shows "\<exists>rule f. rule \<in> set (rules s) \<and> rule k = Some f \<and> RuleFunction_exec env f s = r"
proof -
  from forEach_rule_result [OF assms [unfolded applyRules_def]]
  obtain pre rule post f where
    *: "filter (\<lambda>rule. rule k \<noteq> None) (rules s) = pre @ rule # post"
       "rule k = Some f" "RuleFunction_exec env f s = r"
    by blast
  from *(1) have "rule \<in> set (filter (\<lambda>rule. rule k \<noteq> None) (rules s))" by simp
  then have "rule \<in> set (rules s)" by simp
  with *(2,3) show ?thesis by blast
qed

lemma lex_text_diverges:
  assumes step: "\<And>rest s. I rest s \<Longrightarrow> text s \<noteq> [] \<and>
      (\<exists>s'. applyRules env ''deserialize'' (lex_startState env rest opts s) = Other s' \<and> I rest s')"
    and start: "I rest s"
  shows "lex_text env rest opts s = None"
proof (cases "lex_text env rest opts s")
  case None
  then show ?thesis .
next
  case (Some y)
  have "env = env \<longrightarrow> opts = opts \<longrightarrow> \<not> I rest s"
  proof (rule lex_text.raw_induct
      [where P = "\<lambda>e r o' s y. e = env \<longrightarrow> o' = opts \<longrightarrow> \<not> I r s", OF _ Some])
    fix lx e r o' st y'
    assume IH: "\<And>a b c d y. lx a b c d = Some y \<Longrightarrow> a = env \<longrightarrow> c = opts \<longrightarrow> \<not> I b d"
      and body: "(let startState = lex_startState e r o' st in
          if text st = [] then Some (Inr startState)
          else case applyRules e ''deserialize'' startState of
                 Undefined \<Rightarrow> lx e (r @ [hd (text st)]) o' (skip 1 st)
               | This \<Rightarrow> Some (Inl identical_state)
               | Other newState \<Rightarrow> lx e r o' newState) = Some y'"
    show "e = env \<longrightarrow> o' = opts \<longrightarrow> \<not> I r st"
    proof (intro impI notI)
      assume e: "e = env" "o' = opts" and i: "I r st"
      from step [OF i] obtain s' where
        t: "text st \<noteq> []"
        and a: "applyRules env ''deserialize'' (lex_startState env r opts st) = Other s'"
        and i': "I r s'"
        by blast
      from body e t a have "lx env r opts s' = Some y'" by (simp add: Let_def)
      from IH [OF this] i' show False by simp
    qed
  qed
  with start show ?thesis by simp
qed

lemma lex_fuel_lex_text:
  "lex_fuel k env rest opts s = Some r \<Longrightarrow> lex_text env rest opts s = Some r"
proof (induction k arbitrary: rest s)
  case 0
  then show ?case by simp
next
  case (Suc k)
  show ?case
  proof (cases "text s = []")
    case True
    with Suc.prems show ?thesis by (subst lex_text.simps) (simp add: Let_def)
  next
    case False
    show ?thesis
    proof (cases "applyRules env ''deserialize'' (lex_startState env rest opts s)")
      case Undefined
      with Suc.prems False
      have "lex_fuel k env (rest @ [hd (text s)]) opts (skip 1 s) = Some r" by (simp add: Let_def)
      from Suc.IH [OF this] Undefined False show ?thesis
        by (subst lex_text.simps) (simp add: Let_def)
    next
      case This
      with Suc.prems False show ?thesis by (subst lex_text.simps) (simp add: Let_def)
    next
      case (Other s')
      with Suc.prems False have "lex_fuel k env rest opts s' = Some r" by (simp add: Let_def)
      from Suc.IH [OF this] Other False show ?thesis
        by (subst lex_text.simps) (simp add: Let_def)
    qed
  qed
qed

lemma lex_fuel_terminates:
  assumes consume: "\<forall>k rs rule f s s'. R k = Some rs \<and> rule \<in> set rs \<and>
      rule ''deserialize'' = Some f \<and> rulesSet s = R \<and> text s \<noteq> [] \<and>
      RuleFunction_exec env f s = Other s' \<longrightarrow>
        length (text s') < length (text s) \<and> rulesSet s' = R"
  shows "rulesSet s = R \<Longrightarrow> length (text s) < k \<Longrightarrow> \<exists>r. lex_fuel k env rest opts s = Some r"
proof (induction k arbitrary: rest s)
  case 0
  then show ?case by simp
next
  case (Suc k)
  show ?case
  proof (cases "text s = []")
    case True
    then show ?thesis by (simp add: Let_def)
  next
    case False
    then obtain c cs where t: "text s = c # cs" by (cases "text s") auto
    let ?start = "lex_startState env rest opts s"
    have start: "rulesSet ?start = R" "text ?start = text s" "rules ?start = rules s"
      using Suc.prems(1) by (simp_all add: lex_startState_nodes rules_def)
    show ?thesis
    proof (cases "applyRules env ''deserialize'' ?start")
      case Undefined
      from t Suc.prems have "rulesSet (skip 1 s) = R" "length (text (skip 1 s)) < k"
        by (simp_all add: skip_1)
      from Suc.IH [OF this] Undefined False show ?thesis by (simp add: Let_def)
    next
      case This
      with False show ?thesis by (simp add: Let_def)
    next
      case (Other s')
      from applyRules_result [OF Other] obtain rule f where
        r: "rule \<in> set (rules ?start)" "rule ''deserialize'' = Some f"
           "RuleFunction_exec env f ?start = Other s'"
        by auto
      from r(1) start(3) Suc.prems(1) obtain rs where "R (kind s) = Some rs" "rule \<in> set rs"
        by (auto simp: rules_def split: option.splits)
      moreover from False start(2) have "text ?start \<noteq> []" by simp
      ultimately have "length (text s') < length (text ?start) \<and> rulesSet s' = R"
        using consume [rule_format, of "kind s" rs rule f ?start s'] r(2,3) start(1) by simp
      with Suc.prems start(2) have "rulesSet s' = R" "length (text s') < k" by simp_all
      from Suc.IH [OF this] Other False show ?thesis by (simp add: Let_def)
    qed
  qed
qed

lemma serialize_loop_This:
  "nodes s \<noteq> [] \<Longrightarrow> applyRules env ''serialize'' s = This \<Longrightarrow>
   serialize_loop env s = Some (Inl identical_state)"
  by (subst serialize_loop.simps) (simp split: list.splits)

lemma serialize_loop_Other:
  "nodes s \<noteq> [] \<Longrightarrow> applyRules env ''serialize'' s = Other s' \<Longrightarrow>
   serialize_loop env s = serialize_loop env s'"
  by (subst serialize_loop.simps) (simp split: list.splits)


section \<open>A rule that returns its own state (C2)\<close>





section \<open>No encode rule matches (C4)\<close>

text \<open>
  C4. When the node stack is not empty and no encode rule of the active list matches
  (every rule that offers \<open>serialize\<close> returns \<open>undefined\<close>), \<open>_serialize\<close> throws an error
  whose message is \<open>No rule match node\<close> followed by the front node's kind, \<open>#\<close> and its
  type (empty for a node without type); the node is neither skipped nor given a default,
  and the error differs from the identical-state error.
\<close>

theorem serialize_no_rule_match:
  assumes "nodes s = n # ns"
    and "\<forall>rule\<in>set (rules s). case rule ''serialize'' of None \<Rightarrow> True
           | Some f \<Rightarrow> RuleFunction_exec env f s = Undefined"
  shows "serialize_loop env s =
      Some (Inl (Error (''No rule match node '' @ node_kind n @ ''#''
        @ (case node_type n of None \<Rightarrow> [] | Some t \<Rightarrow> t)))) \<and>
    no_rule_match n \<noteq> identical_state"
proof
  have "applyRules env ''serialize'' s = Undefined"
    by (rule applyRules_Undefined) (use assms(2) in \<open>auto split: option.splits\<close>)
  with assms(1) show "serialize_loop env s =
      Some (Inl (Error (''No rule match node '' @ node_kind n @ ''#''
        @ (case node_type n of None \<Rightarrow> [] | Some t \<Rightarrow> t))))"
    by (subst serialize_loop.simps) (simp add: no_rule_match_def)
  show "no_rule_match n \<noteq> identical_state"
    by (simp add: no_rule_match_def identical_state_def)
qed

theorem serialize_no_rule_match_witness:
  "serialize_loop example_env
     ((create [''block'' \<mapsto> [[''deserialize'' \<mapsto> Same], [''serialize'' \<mapsto> Pass]]]
        :: (example_fn, unit) state)\<lparr>nodes := [Block ''heading'' [Text ''Title'' {}], Text ''b'' {}]\<rparr>)
   = Some (Inl (Error ''No rule match node block#heading''))"
  using serialize_no_rule_match
    [of "(create [''block'' \<mapsto> [[''deserialize'' \<mapsto> Same], [''serialize'' \<mapsto> Pass]]]
        :: (example_fn, unit) state)\<lparr>nodes := [Block ''heading'' [Text ''Title'' {}], Text ''b'' {}]\<rparr>"
      "Block ''heading'' [Text ''Title'' {}]" "[Text ''b'' {}]" example_env]
  by (simp add: rules_def create_def example_env_def)

section \<open>What the encode loop asks of a rule (C5)\<close>

lemma serialize_run_returns:
  "serialize_run env s ss r \<Longrightarrow> serialize_loop env s = Some (Inr r)"
proof (induction ss arbitrary: s)
  case Nil
  then show ?case by (subst serialize_loop.simps) simp
next
  case (Cons s' ss)
  then have "serialize_loop env s = serialize_loop env s'" by (simp add: serialize_loop_Other)
  with Cons show ?case by simp
qed

lemma serialize_loop_returns_run:
  assumes "serialize_loop env s = Some (Inr r)"
  shows "\<exists>ss. serialize_run env s ss r"
proof -
  have "env = env \<longrightarrow> (\<forall>r'. (Inr r :: error + _) = Inr r' \<longrightarrow> (\<exists>ss. serialize_run env s ss r'))"
  proof (rule serialize_loop.raw_induct
      [where P = "\<lambda>e s y. e = env \<longrightarrow> (\<forall>r. y = Inr r \<longrightarrow> (\<exists>ss. serialize_run env s ss r))",
        OF _ assms])
    fix lx e st y
    assume IH: "\<And>a b y. lx a b = Some y \<Longrightarrow>
        a = env \<longrightarrow> (\<forall>r. y = Inr r \<longrightarrow> (\<exists>ss. serialize_run env b ss r))"
      and body: "(case nodes st of [] \<Rightarrow> Some (Inr st)
          | n # x \<Rightarrow>
              (case applyRules e ''serialize'' st of
                 Undefined \<Rightarrow> Some (Inl (no_rule_match n))
               | This \<Rightarrow> Some (Inl identical_state)
               | Other state \<Rightarrow> lx e state)) = Some y"
    show "e = env \<longrightarrow> (\<forall>r. y = Inr r \<longrightarrow> (\<exists>ss. serialize_run env st ss r))"
    proof (intro impI allI)
      fix r
      assume e: "e = env" and y: "y = Inr r"
      show "\<exists>ss. serialize_run env st ss r"
      proof (cases "nodes st")
        case Nil
        with body y have "serialize_run env st [] r" by simp
        then show ?thesis ..
      next
        case (Cons n ns)
        show ?thesis
        proof (cases "applyRules env ''serialize'' st")
          case Undefined
          with body Cons e y show ?thesis by simp
        next
          case This
          with body Cons e y show ?thesis by simp
        next
          case (Other s')
          with body Cons e have "lx env s' = Some y" by simp
          from IH [OF this] y obtain ss where "serialize_run env s' ss r" by auto
          with Cons Other have "serialize_run env st (s' # ss) r" by simp
          then show ?thesis ..
        qed
      qed
    qed
  qed
  then show ?thesis by simp
qed

text \<open>
  C5 (amended). On a non-empty node stack, \<open>_serialize\<close> throws the identical-state error
  when the matching encode rule returns the very state object it was given, and otherwise
  goes on from the state the rule returned, whatever its node stack. So a run of
  \<open>_serialize\<close> returns exactly when the rule applications lead, each through another
  state object, to a state with no node left; the engine checks nothing else, and the
  node stack of a returned state need not be shorter.
\<close>

theorem serialize_loop_accepts_other_state:
  "(nodes s \<noteq> [] \<and> applyRules env ''serialize'' s = This \<longrightarrow>
      serialize_loop env s = Some (Inl (Error ''A rule returns an identical state, returns undefined instead when passing.''))) \<and>
   (nodes s \<noteq> [] \<and> applyRules env ''serialize'' s = Other s' \<longrightarrow>
      serialize_loop env s = serialize_loop env s') \<and>
   (serialize_loop env s = Some (Inr r) \<longleftrightarrow> (\<exists>ss. serialize_run env s ss r)) \<and>
   (nodes s \<noteq> [] \<and> serialize_loop env s = Some (Inr r) \<longrightarrow>
      (\<exists>s'. applyRules env ''serialize'' s = Other s' \<and> serialize_loop env s' = Some (Inr r)))"
proof (intro conjI impI)
  assume "nodes s \<noteq> [] \<and> applyRules env ''serialize'' s = This"
  then show "serialize_loop env s = Some (Inl (Error ''A rule returns an identical state, returns undefined instead when passing.''))"
    using serialize_loop_This [of s env] by (simp add: identical_state_def)
next
  assume "nodes s \<noteq> [] \<and> applyRules env ''serialize'' s = Other s'"
  then show "serialize_loop env s = serialize_loop env s'" by (simp add: serialize_loop_Other)
next
  show "serialize_loop env s = Some (Inr r) \<longleftrightarrow> (\<exists>ss. serialize_run env s ss r)"
    using serialize_run_returns serialize_loop_returns_run by blast
next
  assume a: "nodes s \<noteq> [] \<and> serialize_loop env s = Some (Inr r)"
  then obtain ss where "serialize_run env s ss r" using serialize_loop_returns_run by blast
  with a obtain s' ss' where "applyRules env ''serialize'' s = Other s'" "serialize_run env s' ss' r"
    by (cases ss) auto
  then show "\<exists>s'. applyRules env ''serialize'' s = Other s' \<and> serialize_loop env s' = Some (Inr r)"
    using serialize_run_returns by blast
qed

lemma serialize_loop_WriteThenShift:
  "serialize_loop example_env
     ((create [''block'' \<mapsto> [[''serialize'' \<mapsto> WriteThenShift ''x'']]]
        :: (example_fn, unit) state)\<lparr>depth := 1, nodes := [Text ''a'' {}]\<rparr>)
   = Some (Inr ((create [''block'' \<mapsto> [[''serialize'' \<mapsto> WriteThenShift ''x'']]])
        \<lparr>depth := 1, text := ''x''\<rparr>))"
  apply (subst serialize_loop.simps)
  apply (simp add: applyRules_def rules_def create_def example_env_def write_def)
  apply (subst serialize_loop.simps)
  apply (simp add: applyRules_def rules_def example_env_def shift_def)
  apply (subst serialize_loop.simps)
  apply simp
  done

theorem serialize_loop_accepts_other_state_witness:
  "serialize_loop example_env
     ((create [''block'' \<mapsto> [[''serialize'' \<mapsto> Same]]] :: (example_fn, unit) state)
        \<lparr>nodes := [Text ''a'' {}]\<rparr>)
     = Some (Inl (Error ''A rule returns an identical state, returns undefined instead when passing.'')) \<and>
   serialize_loop example_env
     ((create [''block'' \<mapsto> [[''serialize'' \<mapsto> WriteThenShift ''x'']]]
        :: (example_fn, unit) state)\<lparr>depth := 1, nodes := [Text ''a'' {}]\<rparr>)
     = serialize_loop example_env
         ((create [''block'' \<mapsto> [[''serialize'' \<mapsto> WriteThenShift ''x'']]])
            \<lparr>depth := 1, nodes := [Text ''a'' {}], text := ''x''\<rparr>) \<and>
   (\<exists>ss. serialize_run example_env
       ((create [''block'' \<mapsto> [[''serialize'' \<mapsto> WriteThenShift ''x'']]]
          :: (example_fn, unit) state)\<lparr>depth := 1, nodes := [Text ''a'' {}]\<rparr>)
       ss
       ((create [''block'' \<mapsto> [[''serialize'' \<mapsto> WriteThenShift ''x'']]])
          \<lparr>depth := 1, text := ''x''\<rparr>)) \<and>
   (\<exists>s'. applyRules example_env ''serialize''
       ((create [''block'' \<mapsto> [[''serialize'' \<mapsto> WriteThenShift ''x'']]]
          :: (example_fn, unit) state)\<lparr>depth := 1, nodes := [Text ''a'' {}]\<rparr>) = Other s' \<and>
     serialize_loop example_env s'
       = Some (Inr ((create [''block'' \<mapsto> [[''serialize'' \<mapsto> WriteThenShift ''x'']]])
            \<lparr>depth := 1, text := ''x''\<rparr>)))"
proof -
  let ?b = "(create [''block'' \<mapsto> [[''serialize'' \<mapsto> Same]]] :: (example_fn, unit) state)
        \<lparr>nodes := [Text ''a'' {}]\<rparr>"
  let ?w = "(create [''block'' \<mapsto> [[''serialize'' \<mapsto> WriteThenShift ''x'']]]
        :: (example_fn, unit) state)\<lparr>depth := 1, nodes := [Text ''a'' {}]\<rparr>"
  let ?w' = "(create [''block'' \<mapsto> [[''serialize'' \<mapsto> WriteThenShift ''x'']]]
        :: (example_fn, unit) state)\<lparr>depth := 1, nodes := [Text ''a'' {}], text := ''x''\<rparr>"
  let ?r = "(create [''block'' \<mapsto> [[''serialize'' \<mapsto> WriteThenShift ''x'']]]
        :: (example_fn, unit) state)\<lparr>depth := 1, text := ''x''\<rparr>"
  note T = serialize_loop_accepts_other_state
  have w1: "serialize_loop example_env ?b = Some (Inl (Error ''A rule returns an identical state, returns undefined instead when passing.''))"
    using T [where s = ?b and env = example_env, THEN conjunct1]
    by (simp add: applyRules_def rules_def create_def example_env_def)
  have w2: "serialize_loop example_env ?w = serialize_loop example_env ?w'"
    using T [where s = ?w and s' = ?w' and env = example_env, THEN conjunct2, THEN conjunct1]
    by (simp add: applyRules_def rules_def create_def example_env_def write_def)
  have w3: "\<exists>ss. serialize_run example_env ?w ss ?r"
    using T [where s = ?w and r = ?r and env = example_env,
        THEN conjunct2, THEN conjunct2, THEN conjunct1]
      serialize_loop_WriteThenShift
    by simp
  have w4: "\<exists>s'. applyRules example_env ''serialize'' ?w = Other s' \<and>
      serialize_loop example_env s' = Some (Inr ?r)"
    using T [where s = ?w and r = ?r and env = example_env,
        THEN conjunct2, THEN conjunct2, THEN conjunct2]
      serialize_loop_WriteThenShift
    by simp
  from w1 w2 w3 w4 show ?thesis by (simp only: simp_thms)
qed

text \<open>
  The claim as stated fails: the rule below writes on its first application and shifts
  the node on its second; serialization returns normally, and the first application left
  the node stack as it was.
\<close>

theorem serialize_consumes_node_counterexample:
  "serialize example_env [Text ''a'' {}]
     (create [''block'' \<mapsto> [[''serialize'' \<mapsto> WriteThenShift ''x'']]] :: (example_fn, unit) state)
     = Some (Inr ''x'') \<and>
   applyRules example_env ''serialize''
     ((create [''block'' \<mapsto> [[''serialize'' \<mapsto> WriteThenShift ''x'']]]
        :: (example_fn, unit) state)\<lparr>depth := 1, nodes := [Text ''a'' {}]\<rparr>)
     = Other ((create [''block'' \<mapsto> [[''serialize'' \<mapsto> WriteThenShift ''x'']]])
        \<lparr>depth := 1, nodes := [Text ''a'' {}], text := ''x''\<rparr>)"
proof
  have "(down (create [''block'' \<mapsto> [[''serialize'' \<mapsto> WriteThenShift ''x'']]]
            :: (example_fn, unit) state))\<lparr>text := [], nodes := [Text ''a'' {}]\<rparr>
      = (create [''block'' \<mapsto> [[''serialize'' \<mapsto> WriteThenShift ''x'']]])
          \<lparr>depth := 1, nodes := [Text ''a'' {}]\<rparr>"
    by (simp add: down_def create_def)
  then show "serialize example_env [Text ''a'' {}]
     (create [''block'' \<mapsto> [[''serialize'' \<mapsto> WriteThenShift ''x'']]] :: (example_fn, unit) state)
     = Some (Inr ''x'')"
    by (simp add: serialize_def serialize_loop_WriteThenShift)
  show "applyRules example_env ''serialize''
     ((create [''block'' \<mapsto> [[''serialize'' \<mapsto> WriteThenShift ''x'']]]
        :: (example_fn, unit) state)\<lparr>depth := 1, nodes := [Text ''a'' {}]\<rparr>)
     = Other ((create [''block'' \<mapsto> [[''serialize'' \<mapsto> WriteThenShift ''x'']]])
        \<lparr>depth := 1, nodes := [Text ''a'' {}], text := ''x''\<rparr>)"
    by (simp add: applyRules_def rules_def create_def example_env_def write_def)
qed

section \<open>Termination of decoding (C7)\<close>

lemma example_rules_consume:
  fixes s :: "(example_fn, 'v) state"
  assumes "[''block'' \<mapsto> [[''deserialize'' \<mapsto> SkipPush 1 (Text ''t'' {}),
      ''serialize'' \<mapsto> WriteStr ''t'']]] k = Some rs"
    and "rule \<in> set rs" and "rule ''deserialize'' = Some f" and "text s \<noteq> []"
    and "RuleFunction_exec example_env f s = Other s'"
  shows "length (text s') < length (text s) \<and> rulesSet s' = rulesSet s"
proof -
  from assms(1,2) have "rule = [''deserialize'' \<mapsto> SkipPush 1 (Text ''t'' {}),
      ''serialize'' \<mapsto> WriteStr ''t'']"
    by (auto split: if_splits)
  with assms(3) have "f = SkipPush 1 (Text ''t'' {})" by simp
  with assms(5) have "s' = push (Node (Text ''t'' {})) (skip 1 s)" by (simp add: example_env_def)
  with assms(4) show ?thesis
    by (cases "text s") (simp_all add: push_def skip_def String_slice_def)
qed

text \<open>
  C7 (amended). Take a rule set whose decode rules consume: applied to a state that
  carries the rule set and has text left, a decode rule that returns another state
  returns one with a strictly shorter text that carries the same rule set (the encode
  rules are free). Then for a text of length \<open>n\<close> the decode loop returns (a state or the
  identical-state error) within \<open>n + 1\<close> invocations of \<open>lex\<close>, and \<open>deserialize\<close> returns.
  Whenever no rule matches, the invocation moves exactly the first character of the text
  to the end of the pending raw text and calls \<open>lex\<close> again.
\<close>

theorem lex_terminates_when_rules_consume:
  assumes "\<forall>k rs rule f s s'. rulesSet s0 k = Some rs \<and> rule \<in> set rs \<and>
      rule ''deserialize'' = Some f \<and> rulesSet s = rulesSet s0 \<and> text s \<noteq> [] \<and>
      RuleFunction_exec env f s = Other s' \<longrightarrow>
        length (text s') < length (text s) \<and> rulesSet s' = rulesSet s0"
  shows "(\<exists>r. lex_fuel (Suc (length (text s0))) env rest opts s0 = Some r \<and>
            lex_text env rest opts s0 = Some r) \<and>
         (\<exists>r. deserialize env t s0 = Some r) \<and>
         (\<forall>c cs. text s0 = c # cs \<and>
            applyRules env ''deserialize'' (lex_startState env rest opts s0) = Undefined \<longrightarrow>
            lex_text env rest opts s0 = lex_text env (rest @ [c]) opts (s0\<lparr>text := cs\<rparr>))"
proof (intro conjI allI impI)
  have run: "\<exists>r. lex_fuel (Suc (length (text s))) env rest opts s = Some r \<and>
            lex_text env rest opts s = Some r"
    if "rulesSet s = rulesSet s0" for rest opts and s :: "('a, 'b) state"
  proof -
    from lex_fuel_terminates [OF assms that, of "Suc (length (text s))" rest opts]
    obtain r where r: "lex_fuel (Suc (length (text s))) env rest opts s = Some r" by auto
    from lex_fuel_lex_text [OF r] r show ?thesis by blast
  qed
  from run [of s0] show "\<exists>r. lex_fuel (Suc (length (text s0))) env rest opts s0 = Some r \<and>
            lex_text env rest opts s0 = Some r"
    by simp
  from run [of "(down s0)\<lparr>text := t, nodes := []\<rparr>" "[]" "\<lparr>trim = None\<rparr>"]
  show "\<exists>r. deserialize env t s0 = Some r"
    by (auto simp: deserialize_def down_def split: sum.splits)
next
  fix c cs
  assume "text s0 = c # cs \<and>
     applyRules env ''deserialize'' (lex_startState env rest opts s0) = Undefined"
  then show "lex_text env rest opts s0 = lex_text env (rest @ [c]) opts (s0\<lparr>text := cs\<rparr>)"
    by (subst lex_text.simps) (simp add: Let_def skip_1)
qed

theorem lex_terminates_when_rules_consume_witness:
  "lex_fuel (Suc (length ''ab'')) example_env [] \<lparr>trim = None\<rparr>
     ((create [''block'' \<mapsto> [[''deserialize'' \<mapsto> SkipPush 1 (Text ''t'' {}),
          ''serialize'' \<mapsto> WriteStr ''t'']]] :: (example_fn, unit) state)\<lparr>text := ''ab''\<rparr>)
     = Some (Inr ((create [''block'' \<mapsto> [[''deserialize'' \<mapsto> SkipPush 1 (Text ''t'' {}),
          ''serialize'' \<mapsto> WriteStr ''t'']]])\<lparr>nodes := [Text ''t'' {}, Text ''t'' {}]\<rparr>)) \<and>
   lex_text example_env [] \<lparr>trim = None\<rparr>
     ((create [''block'' \<mapsto> [[''deserialize'' \<mapsto> SkipPush 1 (Text ''t'' {}),
          ''serialize'' \<mapsto> WriteStr ''t'']]] :: (example_fn, unit) state)\<lparr>text := ''ab''\<rparr>)
     = Some (Inr ((create [''block'' \<mapsto> [[''deserialize'' \<mapsto> SkipPush 1 (Text ''t'' {}),
          ''serialize'' \<mapsto> WriteStr ''t'']]])\<lparr>nodes := [Text ''t'' {}, Text ''t'' {}]\<rparr>)) \<and>
   lex_text example_env [] \<lparr>trim = None\<rparr>
     ((create [''block'' \<mapsto> [[''serialize'' \<mapsto> WriteStr ''t'']]] :: (example_fn, unit) state)
        \<lparr>text := ''ab''\<rparr>)
     = lex_text example_env ''a'' \<lparr>trim = None\<rparr>
         ((create [''block'' \<mapsto> [[''serialize'' \<mapsto> WriteStr ''t'']]])\<lparr>text := ''b''\<rparr>)"
proof -
  let ?R = "[''block'' \<mapsto> [[''deserialize'' \<mapsto> SkipPush 1 (Text ''t'' {}),
      ''serialize'' \<mapsto> WriteStr ''t'']]]"
  let ?s = "(create ?R :: (example_fn, unit) state)\<lparr>text := ''ab''\<rparr>"
  let ?Q = "[''block'' \<mapsto> [[''serialize'' \<mapsto> WriteStr ''t'']]]"
  let ?q = "(create ?Q :: (example_fn, unit) state)\<lparr>text := ''ab''\<rparr>"
  have hs: "\<forall>k rs rule f (s :: (example_fn, unit) state) s'. rulesSet ?s k = Some rs \<and> rule \<in> set rs \<and>
      rule ''deserialize'' = Some f \<and> rulesSet s = rulesSet ?s \<and> text s \<noteq> [] \<and>
      RuleFunction_exec example_env f s = Other s' \<longrightarrow>
        length (text s') < length (text s) \<and> rulesSet s' = rulesSet ?s"
  proof (intro allI impI)
    fix k rs rule f and s s' :: "(example_fn, unit) state"
    assume "rulesSet ?s k = Some rs \<and> rule \<in> set rs \<and>
      rule ''deserialize'' = Some f \<and> rulesSet s = rulesSet ?s \<and> text s \<noteq> [] \<and>
      RuleFunction_exec example_env f s = Other s'"
    then have a: "?R k = Some rs" "rule \<in> set rs" "rule ''deserialize'' = Some f"
      "text s \<noteq> []" "RuleFunction_exec example_env f s = Other s'"
      and b: "rulesSet s = rulesSet ?s"
      by (simp_all add: create_def)
    from example_rules_consume [OF a] b
    show "length (text s') < length (text s) \<and> rulesSet s' = rulesSet ?s" by simp
  qed
  have hq: "\<forall>k rs rule f (s :: (example_fn, unit) state) s'. rulesSet ?q k = Some rs \<and> rule \<in> set rs \<and>
      rule ''deserialize'' = Some f \<and> rulesSet s = rulesSet ?q \<and> text s \<noteq> [] \<and>
      RuleFunction_exec example_env f s = Other s' \<longrightarrow>
        length (text s') < length (text s) \<and> rulesSet s' = rulesSet ?q"
    by (auto simp: create_def split: if_splits)
  have run: "lex_fuel (Suc (length ''ab'')) example_env [] \<lparr>trim = None\<rparr> ?s
      = Some (Inr ((create ?R)\<lparr>nodes := [Text ''t'' {}, Text ''t'' {}]\<rparr>))"
    by (simp add: Let_def lex_startState_def String_trim_def applyRules_def rules_def create_def
        example_env_def push_def skip_def String_slice_def)
  from lex_terminates_when_rules_consume [OF hs, of "[]" "\<lparr>trim = None\<rparr>", THEN conjunct1] run
  have w1: "lex_text example_env [] \<lparr>trim = None\<rparr> ?s
      = Some (Inr ((create ?R)\<lparr>nodes := [Text ''t'' {}, Text ''t'' {}]\<rparr>))"
    by auto
  from lex_terminates_when_rules_consume [OF hq, of "[]" "\<lparr>trim = None\<rparr>",
      THEN conjunct2, THEN conjunct2]
  have w2: "lex_text example_env [] \<lparr>trim = None\<rparr> ?q
      = lex_text example_env ''a'' \<lparr>trim = None\<rparr> ((create ?Q)\<lparr>text := ''b''\<rparr>)"
    by (simp add: lex_startState_def String_trim_def applyRules_def rules_def create_def)
  from run w1 w2 show ?thesis by (simp only: simp_thms)
qed

text \<open>
  The claim as stated fails: a rule that pushes a node and consumes no text matches
  forever, each time on a different state, and \<open>deserialize\<close> never returns.
\<close>

theorem decode_terminates_counterexample:
  "deserialize example_env ''a''
     (create [''block'' \<mapsto> [[''deserialize'' \<mapsto> PushOnly (Text ''n'' {})]]] :: (example_fn, unit) state)
   = None"
proof -
  let ?R = "[''block'' \<mapsto> [[''deserialize'' \<mapsto> PushOnly (Text ''n'' {})]]]"
  let ?I = "\<lambda>rest (s :: (example_fn, unit) state).
      rest = [] \<and> text s = ''a'' \<and> kind s = ''block'' \<and> rulesSet s = ?R"
  have "lex_text example_env [] \<lparr>trim = None\<rparr>
      ((down (create ?R :: (example_fn, unit) state))\<lparr>text := ''a'', nodes := []\<rparr>) = None"
  proof (rule lex_text_diverges [where I = ?I])
    fix rest :: string and s :: "(example_fn, unit) state"
    assume i: "?I rest s"
    then have "lex_startState example_env rest \<lparr>trim = None\<rparr> s = s"
      by (simp add: lex_startState_def String_trim_def)
    moreover from i have "applyRules example_env ''deserialize'' s = Other (push (Node (Text ''n'' {})) s)"
      by (simp add: applyRules_def rules_def example_env_def)
    moreover from i have "?I rest (push (Node (Text ''n'' {})) s)" by (simp add: push_def)
    ultimately show "text s \<noteq> [] \<and> (\<exists>s'. applyRules example_env ''deserialize''
        (lex_startState example_env rest \<lparr>trim = None\<rparr> s) = Other s' \<and> ?I rest s')"
      using i by simp
  qed (simp add: down_def create_def)
  then show ?thesis by (simp add: deserialize_def)
qed

section \<open>The nesting depth (C6)\<close>

lemma depth_apply_op:
  "depth (apply_op env op s) = depth s + (if op = Down then 1 else 0) - (if op = Up then 1 else 0)"
  by (cases op)
     (simp_all add: use_def setProp_def write_def replaceText_def shift_def unshift_def push_def
        pushMark_def pushText_def Let_def up_def down_def skip_def)

lemma depth_apply_ops:
  "depth (apply_ops env ops s) =
     depth s + int (length (filter (\<lambda>op. op = Down) ops)) - int (length (filter (\<lambda>op. op = Up) ops))"
  unfolding apply_ops_def
  by (induction ops arbitrary: s) (simp_all add: depth_apply_op)

text \<open>
  C6 (amended). The depth is an integer: \<open>State.create\<close> sets it to 0, \<open>down\<close> adds one,
  \<open>up\<close> subtracts one with no floor at zero, and no other state operation changes it, so
  after any sequence of state operations on a new state it is the number of \<open>down\<close>s
  minus the number of \<open>up\<close>s. \<open>deserialize\<close> and \<open>serialize\<close> run their loop on
  \<open>this.down()\<close>, one level below the state they are called on.
\<close>

theorem depth_counts_down_minus_up:
  "depth (create rs :: ('f, 'v) state) = 0 \<and>
   depth (apply_ops env ops (create rs :: ('f, 'v) state)) =
     int (length (filter (\<lambda>op. op = Down) ops)) - int (length (filter (\<lambda>op. op = Up) ops)) \<and>
   deserialize env t s =
     map_option (map_sum id nodes)
       (lex_text env [] \<lparr>trim = None\<rparr> ((down s)\<lparr>text := t, nodes := []\<rparr>)) \<and>
   serialize env ns s =
     map_option (map_sum id text) (serialize_loop env ((down s)\<lparr>text := [], nodes := ns\<rparr>)) \<and>
   depth ((down s)\<lparr>text := t, nodes := ns\<rparr>) = depth s + 1"
proof (intro conjI)
  show "depth (create rs :: ('f, 'v) state) = 0" by (simp add: create_def)
  then show "depth (apply_ops env ops (create rs :: ('f, 'v) state)) =
     int (length (filter (\<lambda>op. op = Down) ops)) - int (length (filter (\<lambda>op. op = Up) ops))"
    by (simp add: depth_apply_ops)
  show "deserialize env t s =
     map_option (map_sum id nodes)
       (lex_text env [] \<lparr>trim = None\<rparr> ((down s)\<lparr>text := t, nodes := []\<rparr>))"
    by (simp add: deserialize_def split: option.splits sum.splits)
  show "serialize env ns s =
     map_option (map_sum id text) (serialize_loop env ((down s)\<lparr>text := [], nodes := ns\<rparr>))"
    by (simp add: serialize_def split: option.splits sum.splits)
  show "depth ((down s)\<lparr>text := t, nodes := ns\<rparr>) = depth s + 1" by (simp add: down_def)
qed

theorem depth_counts_down_minus_up_witness:
  "depth (apply_ops example_env [Down, PushText ''a'', Down, Up, Use ''inline'', Up]
      (create Map.empty :: (example_fn, unit) state)) = 0 \<and>
   depth (apply_ops example_env [Down, PushMark ''BOLD'', Down, Up]
      (create Map.empty :: (example_fn, unit) state)) = 1"
  using depth_counts_down_minus_up
      [of Map.empty example_env "[Down, PushText ''a'', Down, Up, Use ''inline'', Up]",
        THEN conjunct2, THEN conjunct1]
    depth_counts_down_minus_up
      [of Map.empty example_env "[Down, PushMark ''BOLD'', Down, Up]",
        THEN conjunct2, THEN conjunct1]
  by simp

text \<open>The claim as stated fails: \<open>State.create().up()\<close> has depth \<open>-1\<close>.\<close>

theorem depth_nonnegative_counterexample:
  "depth (up (create Map.empty :: (example_fn, unit) state)) = - 1"
  by (simp add: up_def create_def)

section \<open>Marks and the nodes already pushed (C8)\<close>

lemma nodes_kept: "\<exists>pre post. xs = pre @ xs @ post"
  by (intro exI [of _ "[]"]) simp

lemma nodes_apply_op:
  "\<exists>pre post. nodes (apply_op env op s) = pre @ (if op = Shift then tl (nodes s) else nodes s) @ post"
proof (cases op)
  case Shift
  then show ?thesis
    by (intro exI [of _ "[]"]) (simp add: shift_def split: list.splits)
next
  case (Unshift n)
  then show ?thesis
    by (intro exI [of _ "[n]"] exI [of _ "[]"]) (simp add: unshift_def)
next
  case (Push p)
  then show ?thesis
    by (intro exI [of _ "[]"] exI [of _ "case p of Nodes ns \<Rightarrow> ns | Node n \<Rightarrow> [n]"])
       (simp add: push_def split: pushed.splits)
next
  case (PushText t)
  then show ?thesis
    by (intro exI [of _ "[]"] exI [of _ "[if kind s = ''block''
          then Block (BLOCKS_TEXT env) [Text t (marks s)] else Text t (marks s)]"])
       (simp add: pushText_def push_def Let_def)
qed (simp_all add: use_def setProp_def write_def replaceText_def pushMark_def up_def down_def
    skip_def nodes_kept)

text \<open>
  C8. \<open>pushMark\<close> leaves the node stack as it is; \<open>pushText\<close> appends one node whose
  text leaf carries exactly the marks of the state at that moment; every state operation
  keeps the nodes already on the stack unchanged and in place (\<open>shift\<close> removes the
  first), and so does the flush of the pending raw text in \<open>lex\<close>. So a text pushed before a mark was added keeps its marks, and only the text
  pushed afterwards carries the new mark.
\<close>

theorem marks_not_retroactive:
  "nodes (pushMark m s) = nodes s \<and>
   nodes (pushText env t s) = nodes s @
     [if kind s = ''block'' then Block (BLOCKS_TEXT env) [Text t (marks s)] else Text t (marks s)] \<and>
   (\<exists>pre post. nodes (apply_op env op s) =
      pre @ (if op = Shift then tl (nodes s) else nodes s) @ post) \<and>
   (\<exists>post. nodes (lex_startState env rest opts s) = nodes s @ post) \<and>
   nodes (pushText env b (pushMark m (pushText env a s))) = nodes s @
     [if kind s = ''block'' then Block (BLOCKS_TEXT env) [Text a (marks s)] else Text a (marks s),
      if kind s = ''block'' then Block (BLOCKS_TEXT env) [Text b (insert m (marks s))]
      else Text b (insert m (marks s))]"
proof (intro conjI)
  show "\<exists>pre post. nodes (apply_op env op s) =
      pre @ (if op = Shift then tl (nodes s) else nodes s) @ post"
    by (rule nodes_apply_op)
  show "\<exists>post. nodes (lex_startState env rest opts s) = nodes s @ post"
    by (simp add: lex_startState_def pushText_def push_def Let_def)
qed (simp_all add: pushMark_def pushText_def push_def Let_def)

theorem marks_not_retroactive_witness:
  "nodes (pushText example_env ''b'' (pushMark ''BOLD''
      (pushText example_env ''a'' (use ''inline'' (create Map.empty :: (example_fn, unit) state)))))
   = [Text ''a'' {}, Text ''b'' {''BOLD''}]"
  using marks_not_retroactive
    [where m = "''BOLD''" and s = "use ''inline'' (create Map.empty :: (example_fn, unit) state)"
       and env = example_env and a = "''a''" and b = "''b''",
     THEN conjunct2, THEN conjunct2, THEN conjunct2, THEN conjunct2]
  by (simp add: use_def create_def)

end
